theory Spec2Isabelle
  imports Main "HOL-Library.Monad_Syntax"
begin

section \<open>Python values\<close>

text \<open>
  The script works on Python \<open>str\<close>, \<open>int\<close> and \<open>list\<close> values. Strings are modelled
  as \<^typ>\<open>string\<close>, integers as the unbounded \<^typ>\<open>int\<close>, lists as HOL lists. On the
  characters of \<^typ>\<open>char\<close> the class \<open>\d\<close> of the \<open>re\<close> module is the ten ASCII digits
  and \<open>int()\<close> reads them in base ten; the interpreter's optional limit on the number of
  digits of an \<open>int\<close> conversion is not modelled. The one exception the two functions of
  the transformation can raise is the \<open>IndexError\<close> of a list subscript;
  \<open>FileNotFoundError\<close> and \<open>NotebookError\<close> stand for what the external linter process
  and the notebook reader may raise in \<open>main\<close>.
\<close>

datatype py_error = IndexError | FileNotFoundError | NotebookError

abbreviation LF :: char where "LF \<equiv> CHR 0x0A"
abbreviation CR :: char where "CR \<equiv> CHR 0x0D"
abbreviation ESC :: char where "ESC \<equiv> CHR 0x1B"

text \<open>
  The subscript \<open>xs[i]\<close> of a list of length \<open>n\<close>: the element at \<open>i\<close> when \<open>0 \<le> i < n\<close>,
  the element at \<open>n + i\<close> when \<open>-n \<le> i < 0\<close>, and an \<open>IndexError\<close> for every other \<open>i\<close>.
\<close>

definition py_getitem :: "'a list \<Rightarrow> int \<Rightarrow> py_error + 'a" where
  "py_getitem xs i =
     (if 0 \<le> i \<and> i < int (length xs) then Inr (xs ! nat i)
      else if - int (length xs) \<le> i \<and> i < 0 then Inr (xs ! nat (int (length xs) + i))
      else Inl IndexError)"

text \<open>\<open>int(s)\<close> on a string of decimal digits (leading zeros allowed).\<close>

definition is_digit :: "char \<Rightarrow> bool" where
  "is_digit c = (48 \<le> (of_char c :: nat) \<and> (of_char c :: nat) \<le> 57)"

definition is_upper :: "char \<Rightarrow> bool" where
  "is_upper c = (65 \<le> (of_char c :: nat) \<and> (of_char c :: nat) \<le> 90)"

definition py_int :: "string \<Rightarrow> int" where
  "py_int s = foldl (\<lambda>a c. 10 * a + int ((of_char c :: nat) - 48)) 0 s"

text \<open>\<open>str(n)\<close>, as an f-string renders an \<open>int\<close>: decimal, with a minus sign when negative.\<close>

fun str_nat :: "nat \<Rightarrow> string" where
  "str_nat n =
     (if n < 10 then [char_of (48 + n)]
      else str_nat (n div 10) @ [char_of (48 + n mod 10)])"

declare str_nat.simps [simp del]

definition py_str :: "int \<Rightarrow> string" where
  "py_str i = (if i < 0 then CHR ''-'' # str_nat (nat (- i)) else str_nat (nat i))"

text \<open>\<open>sep.join(xs)\<close>.\<close>

fun str_join :: "string \<Rightarrow> string list \<Rightarrow> string" where
  "str_join sep [] = []"
| "str_join sep [x] = x"
| "str_join sep (x # y # ys) = x @ sep @ str_join sep (y # ys)"

text \<open>
  \<open>itertools.accumulate(xs, initial=v)\<close> with the default addition: \<open>v\<close> first, then
  every running sum; one element more than \<open>xs\<close> has.
\<close>

fun accumulate :: "int list \<Rightarrow> int \<Rightarrow> int list" where
  "accumulate [] initial = [initial]"
| "accumulate (x # xs) initial = initial # accumulate xs (initial + x)"

section \<open>The pattern \<open>LINE_BREAK\<close>\<close>

text \<open>
  \<open>LINE_BREAK = re.compile(r"\r\n|\r|\n")\<close>. The alternatives are tried in this order
  at every position, so a carriage return followed by a line feed is one match.
  \<open>re_findall_LINE_BREAK\<close> is \<open>re.findall(LINE_BREAK, s)\<close>, the matches from left to right;
  \<open>re_split_LINE_BREAK\<close> is \<open>re.split(LINE_BREAK, s)\<close>, the pieces between them.
\<close>

fun re_findall_LINE_BREAK :: "string \<Rightarrow> string list" where
  "re_findall_LINE_BREAK [] = []"
| "re_findall_LINE_BREAK (c # cs) =
     (if c = CR \<and> cs \<noteq> [] \<and> hd cs = LF then [CR, LF] # re_findall_LINE_BREAK (tl cs)
      else if c = CR then [CR] # re_findall_LINE_BREAK cs
      else if c = LF then [LF] # re_findall_LINE_BREAK cs
      else re_findall_LINE_BREAK cs)"

fun re_split_LINE_BREAK :: "string \<Rightarrow> string list" where
  "re_split_LINE_BREAK [] = [[]]"
| "re_split_LINE_BREAK (c # cs) =
     (if c = CR \<and> cs \<noteq> [] \<and> hd cs = LF then [] # re_split_LINE_BREAK (tl cs)
      else if c = CR \<or> c = LF then [] # re_split_LINE_BREAK cs
      else (case re_split_LINE_BREAK cs of
              [] \<Rightarrow> [[c]]
            | p # ps \<Rightarrow> (c # p) # ps))"

section \<open>\<open>compute_jetbrains_cell_offsets\<close>\<close>

text \<open>
  \<^verbatim>\<open>
  jetbrains_full_cell_line_counts = [
      len(re.findall(LINE_BREAK, cell_source)) + 2
      for cell_source in cell_sources
  ]
  return list(accumulate(jetbrains_full_cell_line_counts[:-1], initial=1))
  \<close>
  The slice \<open>xs[:-1]\<close> is the list without its last element, and the empty list when
  \<open>xs\<close> is empty: \<^const>\<open>butlast\<close>.
\<close>

definition full_cell_line_count :: "string \<Rightarrow> int" where
  "full_cell_line_count cell_source = int (length (re_findall_LINE_BREAK cell_source)) + 2"

definition jetbrains_full_cell_line_counts :: "string list \<Rightarrow> int list" where
  "jetbrains_full_cell_line_counts cell_sources = map full_cell_line_count cell_sources"

definition compute_jetbrains_cell_offsets :: "string list \<Rightarrow> int list" where
  "compute_jetbrains_cell_offsets cell_sources =
     accumulate (butlast (jetbrains_full_cell_line_counts cell_sources)) 1"

section \<open>The pattern \<open>RUFF_CONCISE_LINE_OUTPUT_PATTERN\<close>\<close>

text \<open>
  \<^verbatim>\<open>^(?P<file_path>.+?):cell (?P<cell>\d+):(?P<line>\d+):(?P<column>\d+): (?P<error_code>[A-Z]\d{3}) (?P<message>.*)$\<close>

  The groups of a successful match, as the strings the match object holds.
\<close>

record ruff_match =
  file_path :: string
  cell :: string
  line :: string
  column :: string
  error_code :: string
  message :: string

text \<open>A literal of the pattern: consumed from the front of the input, or no match.\<close>

fun literal :: "string \<Rightarrow> string \<Rightarrow> string option" where
  "literal [] s = Some s"
| "literal (p # ps) [] = None"
| "literal (p # ps) (c # cs) = (if p = c then literal ps cs else None)"

text \<open>
  \<open>\d+\<close>, greedy: the longest run of digits, at least one. The literal that follows it
  in the pattern is not a digit, so giving digits back can never make the rest match,
  and the longest run is the only candidate.
\<close>

definition digits1 :: "string \<Rightarrow> (string \<times> string) option" where
  "digits1 s =
     (let ds = takeWhile is_digit s
      in if ds = [] then None else Some (ds, dropWhile is_digit s))"

text \<open>\<open>[A-Z]\d{3}\<close>: one upper-case ASCII letter and exactly three digits.\<close>

fun error_code_token :: "string \<Rightarrow> (string \<times> string) option" where
  "error_code_token (a # b # c # d # rest) =
     (if is_upper a \<and> is_digit b \<and> is_digit c \<and> is_digit d
      then Some ([a, b, c, d], rest) else None)"
| "error_code_token _ = None"

text \<open>
  \<open>.*$\<close>: the dot matches every character but the line feed, and without the
  \<open>MULTILINE\<close> flag \<open>$\<close> matches at the end of the string and just before a line feed
  that is its last character. So the message is everything up to the first line feed,
  and the match fails when anything but one final line feed comes after it.
\<close>

definition message_token :: "string \<Rightarrow> string option" where
  "message_token s =
     (let r = dropWhile (\<lambda>c. c \<noteq> LF) s
      in if r = [] \<or> r = [LF] then Some (takeWhile (\<lambda>c. c \<noteq> LF) s) else None)"

text \<open>Everything of the pattern after the group \<open>file_path\<close>, matched at the front of \<open>s\<close>.\<close>

definition match_after_file_path :: "string \<Rightarrow> string \<Rightarrow> ruff_match option" where
  "match_after_file_path fp s = do {
     s1 \<leftarrow> literal '':cell '' s;
     (c, s2) \<leftarrow> digits1 s1;
     s3 \<leftarrow> literal '':'' s2;
     (l, s4) \<leftarrow> digits1 s3;
     s5 \<leftarrow> literal '':'' s4;
     (col, s6) \<leftarrow> digits1 s5;
     s7 \<leftarrow> literal '': '' s6;
     (code, s8) \<leftarrow> error_code_token s7;
     s9 \<leftarrow> literal '' '' s8;
     msg \<leftarrow> message_token s9;
     Some \<lparr>file_path = fp, cell = c, line = l, column = col,
            error_code = code, message = msg\<rparr>
   }"

text \<open>
  \<open>.+?\<close>, lazy: with \<open>fp\<close> consumed already, try the rest of the pattern here, and
  only when it fails take one more character (never a line feed) into the group.
\<close>

fun lazy_file_path :: "string \<Rightarrow> string \<Rightarrow> ruff_match option" where
  "lazy_file_path fp [] = match_after_file_path fp []"
| "lazy_file_path fp (x # xs) =
     (case match_after_file_path fp (x # xs) of
        Some m \<Rightarrow> Some m
      | None \<Rightarrow> if x = LF then None else lazy_file_path (fp @ [x]) xs)"

text \<open>\<open>re.match(RUFF_CONCISE_LINE_OUTPUT_PATTERN, ruff_line)\<close>: anchored at the start.\<close>

fun re_match :: "string \<Rightarrow> ruff_match option" where
  "re_match [] = None"
| "re_match (x # xs) = (if x = LF then None else lazy_file_path [x] xs)"

text \<open>
  The line a match stands for: its groups between the literals of the pattern, as the
  linter writes a diagnostic.
\<close>

definition ruff_concise_line :: "ruff_match \<Rightarrow> string" where
  "ruff_concise_line m =
     file_path m @ '':cell '' @ cell m @ '':'' @ line m @ '':'' @ column m @ '': '' @
     error_code m @ '' '' @ message m"

section \<open>\<open>transform_ruff_to_jetbrains_compatible_output\<close>\<close>

text \<open>
  The f-string of the list comprehension, for one match and the offset found for it:
  \<^verbatim>\<open>f"{match['file_path']}:{offset + int(match['line'])}:{int(match['column']) - 1}: Ruff ({match['error_code']}): {match['message']}"\<close>
\<close>

definition render :: "ruff_match \<Rightarrow> int \<Rightarrow> string" where
  "render m offset =
     file_path m @ '':'' @ py_str (offset + py_int (line m)) @ '':'' @
     py_str (py_int (column m) - 1) @ '': Ruff ('' @ error_code m @ ''): '' @ message m"

text \<open>
  \<^verbatim>\<open>
  transformed_lines = [
      f"...{jetbrains_cell_line_offsets[int(match['cell']) - 1] + int(match['line'])}..."
      for ruff_line in ruff_lines
      if (match := re.match(RUFF_CONCISE_LINE_OUTPUT_PATTERN, ruff_line))
  ]
  \<close>
  The lines are visited in order; a line without a match is skipped, and the first
  subscript out of range ends the comprehension with its \<open>IndexError\<close>.
\<close>

fun transformed_lines :: "int list \<Rightarrow> string list \<Rightarrow> py_error + string list" where
  "transformed_lines offsets [] = Inr []"
| "transformed_lines offsets (ruff_line # ruff_lines) =
     (case re_match ruff_line of
        None \<Rightarrow> transformed_lines offsets ruff_lines
      | Some m \<Rightarrow>
          (case py_getitem offsets (py_int (cell m) - 1) of
             Inl e \<Rightarrow> Inl e
           | Inr offset \<Rightarrow>
               (case transformed_lines offsets ruff_lines of
                  Inl e \<Rightarrow> Inl e
                | Inr rendered \<Rightarrow> Inr (render m offset # rendered))))"

definition transform_ruff_to_jetbrains_compatible_output ::
    "string \<Rightarrow> string list \<Rightarrow> py_error + string" where
  "transform_ruff_to_jetbrains_compatible_output ruff_output cell_sources =
     (let ruff_lines = re_split_LINE_BREAK ruff_output;
          jetbrains_cell_line_offsets = compute_jetbrains_cell_offsets cell_sources
      in case transformed_lines jetbrains_cell_line_offsets ruff_lines of
           Inl e \<Rightarrow> Inl e
         | Inr rendered \<Rightarrow> Inr (str_join [LF] rendered))"

text \<open>A rendered line and the line of the linter's output it comes from.\<close>

definition rendering_of :: "int list \<Rightarrow> string \<Rightarrow> string \<Rightarrow> bool" where
  "rendering_of offsets ruff_line rendered_line =
     (case re_match ruff_line of
        None \<Rightarrow> False
      | Some m \<Rightarrow>
          (case py_getitem offsets (py_int (cell m) - 1) of
             Inl e \<Rightarrow> False
           | Inr offset \<Rightarrow> rendered_line = render m offset))"

section \<open>\<open>main\<close>\<close>

text \<open>
  What \<open>main\<close> reads from the world around it, as functions of the path argument:
  \<open>Path(p).suffix\<close>, \<open>str(Path(p))\<close> and \<open>Path(p).is_file()\<close> of \<open>pathlib\<close>, the run of
  \<open>ruff check --output-format=concise --quiet p\<close> with its captured standard output,
  standard error and return code, and \<open>read_cells(p)\<close>, the cell sources \<open>nbformat\<close>
  reads. The last two may raise.
\<close>

record environment =
  path_suffix :: "string \<Rightarrow> string"
  path_str :: "string \<Rightarrow> string"
  path_is_file :: "string \<Rightarrow> bool"
  run_ruff :: "string \<Rightarrow> py_error + (string \<times> string \<times> int)"
  read_cells :: "string \<Rightarrow> py_error + string list"

text \<open>
  What a run leaves behind: the text printed to standard output and to standard error,
  the external calls made, in order, and how it ended: \<open>sys.exit(code)\<close> or an exception
  nobody catches.
\<close>

datatype event = Ruff_Run string | Notebook_Read string

datatype ending = Sys_Exit int | Uncaught py_error

record run =
  stdout :: string
  stderr :: string
  events :: "event list"
  ending :: ending

definition usage_error :: "string \<Rightarrow> run" where
  "usage_error text_line =
     \<lparr>stdout = [], stderr = text_line @ [LF], events = [], ending = Sys_Exit 2\<rparr>"

definition no_file_message :: string where
  "no_file_message =
     [ESC] @ ''[91mNo file specified. Make sure you provide the JetBrains $FilePath$ argument in the file watcher run configurations'' @ [ESC] @ ''[0m''"

definition several_files_message :: string where
  "several_files_message =
     [ESC] @ ''[91mSeveral files specified. Make sure you only provide the JetBrains $FilePath$ argument in the file watcher run configurations'' @ [ESC] @ ''[0m''"

definition not_ipynb_message :: string where
  "not_ipynb_message =
     [ESC] @ ''[91mruff-jupyter-jetbrains is designed to be run on '' @ [ESC] @ ''[4m.ipynb'' @ [ESC] @ ''[24m files. Make sure the JetBrains file watcher is configured for Jupyter files exclusively.'' @ [ESC] @ ''[0m''"

definition not_a_file_message :: "string \<Rightarrow> string" where
  "not_a_file_message notebook_path =
     [ESC] @ ''[91mFile '' @ notebook_path @ '' does not exist. This is unexpected if you use ruff-jupyter-jetbrains as a file watcher.'' @ [ESC] @ ''[0m''"

text \<open>
  \<open>main\<close>, with \<open>sys.argv\<close> as the list \<open>argv\<close> (the program's name first). The four
  checks come in the order of the source, each printing one line to standard error and
  leaving with \<open>sys.exit(2)\<close>; \<open>sys.argv[1]\<close> on a list without a second element raises.
  Then the linter runs, the notebook is read, the output is transformed, and both texts
  are printed with \<open>end=""\<close> before \<open>sys.exit(ruff_output.returncode)\<close>.
\<close>

definition uncaught :: "event list \<Rightarrow> py_error \<Rightarrow> run" where
  "uncaught evs e = \<lparr>stdout = [], stderr = [], events = evs, ending = Uncaught e\<rparr>"

definition main :: "environment \<Rightarrow> string list \<Rightarrow> run" where
  "main env argv =
     (if length argv = 1 then usage_error no_file_message
      else if length argv \<ge> 3 then usage_error several_files_message
      else
       (case py_getitem argv 1 of
          Inl e \<Rightarrow> uncaught [] e
        | Inr notebook_path \<Rightarrow>
           (if path_suffix env notebook_path \<noteq> ''.ipynb'' then usage_error not_ipynb_message
            else if \<not> path_is_file env notebook_path
              then usage_error (not_a_file_message (path_str env notebook_path))
            else
             (case run_ruff env notebook_path of
                Inl e \<Rightarrow> uncaught [Ruff_Run notebook_path] e
              | Inr (ruff_stdout, ruff_stderr, returncode) \<Rightarrow>
                 (case read_cells env notebook_path of
                    Inl e \<Rightarrow> uncaught [Ruff_Run notebook_path, Notebook_Read notebook_path] e
                  | Inr cell_sources \<Rightarrow>
                     (case transform_ruff_to_jetbrains_compatible_output
                             ruff_stdout cell_sources of
                        Inl e \<Rightarrow>
                          uncaught [Ruff_Run notebook_path, Notebook_Read notebook_path] e
                      | Inr jetbrains_compatible_output \<Rightarrow>
                          \<lparr>stdout = jetbrains_compatible_output, stderr = ruff_stderr,
                           events = [Ruff_Run notebook_path, Notebook_Read notebook_path],
                           ending = Sys_Exit returncode\<rparr>))))))"

text \<open>An environment to run \<open>main\<close> in: one notebook path, no file behind it.\<close>

definition example_environment :: environment where
  "example_environment =
     \<lparr>path_suffix = (\<lambda>p. if p = ''nb.ipynb'' then ''.ipynb'' else []),
      path_str = (\<lambda>p. p),
      path_is_file = (\<lambda>p. False),
      run_ruff = (\<lambda>p. Inl FileNotFoundError),
      read_cells = (\<lambda>p. Inl NotebookError)\<rparr>"

section \<open>Properties of the offsets\<close>

lemma length_accumulate: "length (accumulate xs v) = Suc (length xs)"
  by (induction xs arbitrary: v) simp_all

lemma nth_accumulate:
  "k \<le> length xs \<Longrightarrow> accumulate xs v ! k = v + sum_list (take k xs)"
proof (induction xs arbitrary: v k)
  case Nil
  then show ?case by simp
next
  case (Cons x xs)
  then show ?case by (cases k) simp_all
qed

lemma accumulate_lower_bound:
  "\<forall>x \<in> set xs. 0 < x \<Longrightarrow> y \<in> set (accumulate xs v) \<Longrightarrow> v \<le> y"
proof (induction xs arbitrary: v)
  case Nil
  then show ?case by simp
next
  case (Cons x xs)
  from Cons.prems(2) have "y = v \<or> y \<in> set (accumulate xs (v + x))" by simp
  then show ?case
  proof
    assume "y = v" then show ?thesis by simp
  next
    assume "y \<in> set (accumulate xs (v + x))"
    with Cons.IH [of "v + x"] Cons.prems(1) have "v + x \<le> y" by simp
    with Cons.prems(1) show ?thesis by simp
  qed
qed

lemma accumulate_increasing:
  "\<forall>x \<in> set xs. 0 < x \<Longrightarrow> sorted_wrt (<) (accumulate xs v)"
proof (induction xs arbitrary: v)
  case Nil
  then show ?case by simp
next
  case (Cons x xs)
  have "v < y" if "y \<in> set (accumulate xs (v + x))" for y
    using accumulate_lower_bound [of xs y "v + x"] Cons.prems that by force
  with Cons show ?case by simp
qed

lemma full_cell_line_count_ge_2: "2 \<le> full_cell_line_count s"
  by (simp add: full_cell_line_count_def)

lemma length_offsets:
  "length (compute_jetbrains_cell_offsets cells) = max 1 (length cells)"
  by (cases cells)
     (simp_all add: compute_jetbrains_cell_offsets_def jetbrains_full_cell_line_counts_def
        length_accumulate)

lemma take_butlast_le: "i \<le> length xs - 1 \<Longrightarrow> take i (butlast xs) = take i xs"
  by (simp add: butlast_conv_take min_absorb1)

lemma nth_offsets:
  assumes "i < length (compute_jetbrains_cell_offsets cells)"
  shows "compute_jetbrains_cell_offsets cells ! i
           = 1 + sum_list (map full_cell_line_count (take i cells))"
proof -
  let ?cs = "jetbrains_full_cell_line_counts cells"
  from assms have i: "i \<le> length (butlast ?cs)"
    by (simp add: compute_jetbrains_cell_offsets_def length_accumulate)
  then have "take i (butlast ?cs) = take i ?cs"
    by (simp add: take_butlast_le)
  with i show ?thesis
    by (simp add: compute_jetbrains_cell_offsets_def nth_accumulate
          jetbrains_full_cell_line_counts_def take_map)
qed

lemma offsets_step:
  assumes "1 \<le> i" "i < length (compute_jetbrains_cell_offsets cells)"
  shows "i - 1 < length cells \<and>
         compute_jetbrains_cell_offsets cells ! i
           = compute_jetbrains_cell_offsets cells ! (i - 1)
             + full_cell_line_count (cells ! (i - 1))"
proof -
  from assms have il: "i < length cells" by (simp add: length_offsets)
  obtain j where j: "i = Suc j" using assms(1) by (cases i) simp_all
  from il j have "take (Suc j) cells = take j cells @ [cells ! j]"
    by (simp add: take_Suc_conv_app_nth)
  with assms il j show ?thesis
    by (simp add: nth_offsets)
qed

lemma offsets_increasing: "sorted_wrt (<) (compute_jetbrains_cell_offsets cells)"
proof -
  have "\<forall>x \<in> set (butlast (jetbrains_full_cell_line_counts cells)). 0 < x"
  proof
    fix x assume "x \<in> set (butlast (jetbrains_full_cell_line_counts cells))"
    then have "x \<in> set (jetbrains_full_cell_line_counts cells)" by (rule in_set_butlastD)
    then obtain s where "x = full_cell_line_count s"
      by (auto simp: jetbrains_full_cell_line_counts_def)
    with full_cell_line_count_ge_2 [of s] show "0 < x" by simp
  qed
  then show ?thesis
    unfolding compute_jetbrains_cell_offsets_def by (rule accumulate_increasing)
qed

lemma hd_offsets: "hd (compute_jetbrains_cell_offsets cells) = 1"
  by (cases "butlast (jetbrains_full_cell_line_counts cells)")
     (simp_all add: compute_jetbrains_cell_offsets_def)

text \<open>
  C2. For every list of cell sources, the offsets are the exclusive prefix sums of the
  full cell line counts (the number of line breaks of a cell's source plus 2), seeded
  with 1: the first offset is 1, every later offset is the one before it plus the full
  line count of the cell before it, and so the offset at index \<open>i\<close> is 1 plus the counts
  of the first \<open>i\<close> cells. The offsets of the one cell \<open>a\nb\<close> are \<open>[1]\<close>, those of the two
  cells \<open>a\<close> and \<open>b\nc\<close> are \<open>[1, 3]\<close>.
\<close>

theorem offsets_are_prefix_sums:
  "compute_jetbrains_cell_offsets cells ! 0 = 1 \<and>
   (\<forall>i. 1 \<le> i \<and> i < length (compute_jetbrains_cell_offsets cells) \<longrightarrow>
        i - 1 < length cells \<and>
        compute_jetbrains_cell_offsets cells ! i
          = compute_jetbrains_cell_offsets cells ! (i - 1)
            + full_cell_line_count (cells ! (i - 1))) \<and>
   (\<forall>i < length (compute_jetbrains_cell_offsets cells).
        compute_jetbrains_cell_offsets cells ! i
          = 1 + sum_list (map full_cell_line_count (take i cells))) \<and>
   full_cell_line_count s = int (length (re_findall_LINE_BREAK s)) + 2 \<and>
   compute_jetbrains_cell_offsets [[CHR ''a'', LF, CHR ''b'']] = [1] \<and>
   compute_jetbrains_cell_offsets [''a'', [CHR ''b'', LF, CHR ''c'']] = [1, 3]"
proof -
  have first: "compute_jetbrains_cell_offsets cells ! 0 = 1"
    using nth_offsets [of 0 cells] by (simp add: length_offsets)
  have one: "compute_jetbrains_cell_offsets [[CHR ''a'', LF, CHR ''b'']] = [1]"
    by code_simp
  have two: "compute_jetbrains_cell_offsets [''a'', [CHR ''b'', LF, CHR ''c'']] = [1, 3]"
    by code_simp
  have step: "\<forall>i. 1 \<le> i \<and> i < length (compute_jetbrains_cell_offsets cells) \<longrightarrow>
        i - 1 < length cells \<and>
        compute_jetbrains_cell_offsets cells ! i
          = compute_jetbrains_cell_offsets cells ! (i - 1)
            + full_cell_line_count (cells ! (i - 1))"
    using offsets_step [of _ cells] by blast
  have closed: "\<forall>i < length (compute_jetbrains_cell_offsets cells).
        compute_jetbrains_cell_offsets cells ! i
          = 1 + sum_list (map full_cell_line_count (take i cells))"
    using nth_offsets [of _ cells] by blast
  have count: "full_cell_line_count s = int (length (re_findall_LINE_BREAK s)) + 2"
    by (simp add: full_cell_line_count_def)
  from first step closed count one two show ?thesis
    by (intro conjI)
qed

theorem offsets_are_prefix_sums_witness:
  "compute_jetbrains_cell_offsets [''a'', [CHR ''b'', LF, CHR ''c'']] ! 1
     = compute_jetbrains_cell_offsets [''a'', [CHR ''b'', LF, CHR ''c'']] ! 0
       + full_cell_line_count ''a'' \<and>
   compute_jetbrains_cell_offsets [''a'', [CHR ''b'', LF, CHR ''c'']] ! 1
     = 1 + sum_list (map full_cell_line_count [''a''])"
proof -
  let ?cells = "[''a'', [CHR ''b'', LF, CHR ''c'']]"
  have len: "length (compute_jetbrains_cell_offsets ?cells) = 2"
    by (simp add: length_offsets)
  have step: "\<forall>i. 1 \<le> i \<and> i < length (compute_jetbrains_cell_offsets ?cells) \<longrightarrow>
        i - 1 < length ?cells \<and>
        compute_jetbrains_cell_offsets ?cells ! i
          = compute_jetbrains_cell_offsets ?cells ! (i - 1)
            + full_cell_line_count (?cells ! (i - 1))"
    using offsets_are_prefix_sums [of ?cells] by blast
  have closed: "\<forall>i < length (compute_jetbrains_cell_offsets ?cells).
        compute_jetbrains_cell_offsets ?cells ! i
          = 1 + sum_list (map full_cell_line_count (take i ?cells))"
    using offsets_are_prefix_sums [of ?cells] by blast
  from step [rule_format, of 1] closed [rule_format, of 1] len show ?thesis
    by simp
qed

text \<open>
  C3. The claim: the offsets are as many as the cells, and no cell gives no offset. The
  code at the list of no cells: the slice of the empty list of counts is empty, and
  \<open>accumulate\<close> still yields its initial value, so the result is \<open>[1]\<close>, one offset for no
  cell. In general the number of offsets is the number of cells or 1, whichever is
  larger.
\<close>

theorem offsets_of_no_cells:
  "compute_jetbrains_cell_offsets [] = [1] \<and>
   length (compute_jetbrains_cell_offsets []) = 1 \<and>
   length (compute_jetbrains_cell_offsets cells) = max 1 (length cells)"
  by (simp add: length_offsets)
     (simp add: compute_jetbrains_cell_offsets_def jetbrains_full_cell_line_counts_def)

text \<open>
  C4. For every non-empty list of cell sources, the offsets are strictly increasing and
  the first of them is 1 (and they are as many as the cells).
\<close>

theorem offsets_strictly_increasing:
  assumes "cells \<noteq> []"
  shows "sorted_wrt (<) (compute_jetbrains_cell_offsets cells) \<and>
         (\<forall>i j. i < j \<and> j < length (compute_jetbrains_cell_offsets cells) \<longrightarrow>
            compute_jetbrains_cell_offsets cells ! i < compute_jetbrains_cell_offsets cells ! j) \<and>
         hd (compute_jetbrains_cell_offsets cells) = 1 \<and>
         compute_jetbrains_cell_offsets cells ! 0 = 1 \<and>
         length (compute_jetbrains_cell_offsets cells) = length cells"
proof -
  have inc: "sorted_wrt (<) (compute_jetbrains_cell_offsets cells)"
    by (rule offsets_increasing)
  from assms have len: "length (compute_jetbrains_cell_offsets cells) = length cells"
    by (cases cells) (simp_all add: length_offsets)
  have first: "compute_jetbrains_cell_offsets cells ! 0 = 1"
    using nth_offsets [of 0 cells] by (simp add: length_offsets)
  from inc have "\<forall>i j. i < j \<and> j < length (compute_jetbrains_cell_offsets cells) \<longrightarrow>
      compute_jetbrains_cell_offsets cells ! i < compute_jetbrains_cell_offsets cells ! j"
    by (simp add: sorted_wrt_iff_nth_less)
  with inc len first show ?thesis by (simp add: hd_offsets)
qed

theorem offsets_strictly_increasing_witness:
  "sorted_wrt (<) (compute_jetbrains_cell_offsets [''a'', [CHR ''b'', LF, CHR ''c'']]) \<and>
   compute_jetbrains_cell_offsets [''a'', [CHR ''b'', LF, CHR ''c'']] ! 0
     < compute_jetbrains_cell_offsets [''a'', [CHR ''b'', LF, CHR ''c'']] ! 1 \<and>
   hd (compute_jetbrains_cell_offsets [''a'', [CHR ''b'', LF, CHR ''c'']]) = 1 \<and>
   length (compute_jetbrains_cell_offsets [''a'', [CHR ''b'', LF, CHR ''c'']]) = 2"
proof -
  let ?cells = "[''a'', [CHR ''b'', LF, CHR ''c'']]"
  have ne: "?cells \<noteq> []" by simp
  note facts = offsets_strictly_increasing [OF ne]
  from facts have inc: "sorted_wrt (<) (compute_jetbrains_cell_offsets ?cells)"
    by (rule conjunct1)
  from facts have len: "length (compute_jetbrains_cell_offsets ?cells) = 2"
    by simp
  from facts have hd1: "hd (compute_jetbrains_cell_offsets ?cells) = 1"
    by blast
  from facts have "\<forall>i j. i < j \<and> j < length (compute_jetbrains_cell_offsets ?cells) \<longrightarrow>
      compute_jetbrains_cell_offsets ?cells ! i < compute_jetbrains_cell_offsets ?cells ! j"
    by blast
  from this [rule_format, of 0 1] len
  have "compute_jetbrains_cell_offsets ?cells ! 0 < compute_jetbrains_cell_offsets ?cells ! 1"
    by simp
  with inc len hd1 show ?thesis
    by (intro conjI)
qed

section \<open>Usage errors of \<open>main\<close>\<close>

lemma main_no_argument:
  "length argv = 1 \<Longrightarrow> main env argv = usage_error no_file_message"
  by (simp add: main_def)

lemma main_several_arguments:
  "3 \<le> length argv \<Longrightarrow> main env argv = usage_error several_files_message"
  by (simp add: main_def)

lemma main_not_ipynb:
  "path_suffix env p \<noteq> ''.ipynb'' \<Longrightarrow> main env [prog, p] = usage_error not_ipynb_message"
  by (simp add: main_def py_getitem_def)

lemma main_not_a_file:
  "path_suffix env p = ''.ipynb'' \<Longrightarrow> \<not> path_is_file env p \<Longrightarrow>
   main env [prog, p] = usage_error (not_a_file_message (path_str env p))"
  by (simp add: main_def py_getitem_def)

text \<open>
  C8. In each of the four cases of a usage error (no argument; more than one argument;
  one argument whose suffix is not \<open>.ipynb\<close>; one argument with that suffix that is not
  an existing regular file) \<open>main\<close> leaves with \<open>sys.exit(2)\<close>, has printed nothing to
  standard output and exactly one line to standard error, the case's message between
  the colour escape codes \<open>ESC[91m\<close> and \<open>ESC[0m\<close>, and has neither run the linter nor
  read the notebook.
\<close>

theorem main_usage_errors:
  "(length argv = 1 \<longrightarrow>
      main env argv = \<lparr>stdout = [], stderr = no_file_message @ [LF],
                       events = [], ending = Sys_Exit 2\<rparr>) \<and>
   (3 \<le> length argv \<longrightarrow>
      main env argv = \<lparr>stdout = [], stderr = several_files_message @ [LF],
                       events = [], ending = Sys_Exit 2\<rparr>) \<and>
   (path_suffix env p \<noteq> ''.ipynb'' \<longrightarrow>
      main env [prog, p] = \<lparr>stdout = [], stderr = not_ipynb_message @ [LF],
                             events = [], ending = Sys_Exit 2\<rparr>) \<and>
   (path_suffix env p = ''.ipynb'' \<and> \<not> path_is_file env p \<longrightarrow>
      main env [prog, p] = \<lparr>stdout = [],
                             stderr = not_a_file_message (path_str env p) @ [LF],
                             events = [], ending = Sys_Exit 2\<rparr>) \<and>
   (\<exists>body. no_file_message = [ESC] @ ''[91m'' @ body @ [ESC] @ ''[0m'') \<and>
   (\<exists>body. several_files_message = [ESC] @ ''[91m'' @ body @ [ESC] @ ''[0m'') \<and>
   (\<exists>body. not_ipynb_message = [ESC] @ ''[91m'' @ body @ [ESC] @ ''[0m'') \<and>
   (\<exists>body. not_a_file_message q = [ESC] @ ''[91m'' @ body @ [ESC] @ ''[0m'')"
proof -
  have a: "length argv = 1 \<longrightarrow>
      main env argv = \<lparr>stdout = [], stderr = no_file_message @ [LF],
                       events = [], ending = Sys_Exit 2\<rparr>"
    by (simp add: main_no_argument usage_error_def)
  have b: "3 \<le> length argv \<longrightarrow>
      main env argv = \<lparr>stdout = [], stderr = several_files_message @ [LF],
                       events = [], ending = Sys_Exit 2\<rparr>"
    by (simp add: main_several_arguments usage_error_def)
  have c: "path_suffix env p \<noteq> ''.ipynb'' \<longrightarrow>
      main env [prog, p] = \<lparr>stdout = [], stderr = not_ipynb_message @ [LF],
                             events = [], ending = Sys_Exit 2\<rparr>"
    by (simp add: main_not_ipynb usage_error_def)
  have d: "path_suffix env p = ''.ipynb'' \<and> \<not> path_is_file env p \<longrightarrow>
      main env [prog, p] = \<lparr>stdout = [],
                             stderr = not_a_file_message (path_str env p) @ [LF],
                             events = [], ending = Sys_Exit 2\<rparr>"
    using main_not_a_file [of env p prog] by (simp add: usage_error_def)
  have e: "\<exists>body. no_file_message = [ESC] @ ''[91m'' @ body @ [ESC] @ ''[0m''"
    unfolding no_file_message_def
    by (rule exI [of _ "''No file specified. Make sure you provide the JetBrains $FilePath$ argument in the file watcher run configurations''"]) simp
  have f: "\<exists>body. several_files_message = [ESC] @ ''[91m'' @ body @ [ESC] @ ''[0m''"
    unfolding several_files_message_def
    by (rule exI [of _ "''Several files specified. Make sure you only provide the JetBrains $FilePath$ argument in the file watcher run configurations''"]) simp
  have g: "\<exists>body. not_ipynb_message = [ESC] @ ''[91m'' @ body @ [ESC] @ ''[0m''"
    unfolding not_ipynb_message_def
    by (rule exI [of _ "''ruff-jupyter-jetbrains is designed to be run on '' @ [ESC] @ ''[4m.ipynb'' @ [ESC] @ ''[24m files. Make sure the JetBrains file watcher is configured for Jupyter files exclusively.''"]) simp
  have h: "\<exists>body. not_a_file_message q = [ESC] @ ''[91m'' @ body @ [ESC] @ ''[0m''"
    unfolding not_a_file_message_def
    by (rule exI [of _ "''File '' @ q @ '' does not exist. This is unexpected if you use ruff-jupyter-jetbrains as a file watcher.''"]) simp
  from a b c d e f g h show ?thesis by (intro conjI)
qed

theorem main_usage_errors_witness:
  "main example_environment [''prog'']
     = \<lparr>stdout = [], stderr = no_file_message @ [LF], events = [], ending = Sys_Exit 2\<rparr> \<and>
   main example_environment [''prog'', ''a.ipynb'', ''b.ipynb'']
     = \<lparr>stdout = [], stderr = several_files_message @ [LF], events = [],
        ending = Sys_Exit 2\<rparr> \<and>
   main example_environment [''prog'', ''nb.ipnb'']
     = \<lparr>stdout = [], stderr = not_ipynb_message @ [LF], events = [], ending = Sys_Exit 2\<rparr> \<and>
   main example_environment [''prog'', ''nb.ipynb'']
     = \<lparr>stdout = [], stderr = not_a_file_message ''nb.ipynb'' @ [LF], events = [],
        ending = Sys_Exit 2\<rparr>"
proof -
  have a: "length [''prog''] = 1" by simp
  have b: "3 \<le> length [''prog'', ''a.ipynb'', ''b.ipynb'']" by simp
  have c: "path_suffix example_environment ''nb.ipnb'' \<noteq> ''.ipynb''"
    by (simp add: example_environment_def)
  have d: "path_suffix example_environment ''nb.ipynb'' = ''.ipynb'' \<and>
           \<not> path_is_file example_environment ''nb.ipynb''"
    by (simp add: example_environment_def)
  have s: "path_str example_environment ''nb.ipynb'' = ''nb.ipynb''"
    by (simp add: example_environment_def)
  from a main_usage_errors [of "[''prog'']" example_environment]
  have 1: "main example_environment [''prog'']
     = \<lparr>stdout = [], stderr = no_file_message @ [LF], events = [], ending = Sys_Exit 2\<rparr>"
    by blast
  from b main_usage_errors [of "[''prog'', ''a.ipynb'', ''b.ipynb'']" example_environment]
  have 2: "main example_environment [''prog'', ''a.ipynb'', ''b.ipynb'']
     = \<lparr>stdout = [], stderr = several_files_message @ [LF], events = [],
        ending = Sys_Exit 2\<rparr>"
    by blast
  from c main_usage_errors [of _ example_environment "''nb.ipnb''" "''prog''"]
  have 3: "main example_environment [''prog'', ''nb.ipnb'']
     = \<lparr>stdout = [], stderr = not_ipynb_message @ [LF], events = [], ending = Sys_Exit 2\<rparr>"
    by blast
  from d main_usage_errors [of _ example_environment "''nb.ipynb''" "''prog''"]
  have "main example_environment [''prog'', ''nb.ipynb'']
     = \<lparr>stdout = [], stderr = not_a_file_message (path_str example_environment ''nb.ipynb'') @ [LF],
        events = [], ending = Sys_Exit 2\<rparr>"
    by blast
  with s have 4: "main example_environment [''prog'', ''nb.ipynb'']
     = \<lparr>stdout = [], stderr = not_a_file_message ''nb.ipynb'' @ [LF], events = [],
        ending = Sys_Exit 2\<rparr>"
    by simp
  from 1 2 3 4 show ?thesis by (intro conjI)
qed

section \<open>Properties of splitting and joining\<close>

lemma re_split_not_Nil: "re_split_LINE_BREAK s \<noteq> []"
  by (induction s rule: re_split_LINE_BREAK.induct) (auto split: list.splits)

lemma re_split_no_breaks:
  "CR \<notin> set s \<Longrightarrow> LF \<notin> set s \<Longrightarrow> re_split_LINE_BREAK s = [s]"
  by (induction s) auto

lemma re_split_pieces:
  "p \<in> set (re_split_LINE_BREAK s) \<Longrightarrow> CR \<notin> set p \<and> LF \<notin> set p"
proof (induction s arbitrary: p rule: re_split_LINE_BREAK.induct)
  case 1
  then show ?case by simp
next
  case (2 c cs)
  show ?case
  proof (cases "c = CR \<and> cs \<noteq> [] \<and> hd cs = LF")
    case True
    with 2 show ?thesis by auto
  next
    case False
    note notcrlf = this
    show ?thesis
    proof (cases "c = CR \<or> c = LF")
      case True
      with notcrlf 2 show ?thesis by auto
    next
      case False
      obtain q qs where q: "re_split_LINE_BREAK cs = q # qs"
        using re_split_not_Nil [of cs] by (cases "re_split_LINE_BREAK cs") auto
      with False notcrlf "2.prems" have "p = c # q \<or> p \<in> set qs" by auto
      moreover from "2.IH"(3) [of q] False notcrlf q
      have "CR \<notin> set q \<and> LF \<notin> set q" by auto
      moreover have "p \<in> set qs \<Longrightarrow> CR \<notin> set p \<and> LF \<notin> set p"
        using "2.IH"(3) [of p] False notcrlf q by auto
      ultimately show ?thesis using False by auto
    qed
  qed
qed

lemma length_re_split:
  "length (re_split_LINE_BREAK s) = Suc (length (re_findall_LINE_BREAK s))"
  by (induction s rule: re_split_LINE_BREAK.induct) (auto split: list.splits)

lemma concat_re_split:
  "concat (re_split_LINE_BREAK s) = filter (\<lambda>c. c \<noteq> CR \<and> c \<noteq> LF) s"
proof (induction s rule: re_split_LINE_BREAK.induct)
  case 1
  then show ?case by simp
next
  case (2 c cs)
  show ?case
  proof (cases "c = CR \<and> cs \<noteq> [] \<and> hd cs = LF")
    case True
    then obtain ds where "cs = LF # ds" by (cases cs) auto
    with True 2 show ?thesis by simp
  next
    case False
    with 2 show ?thesis by (auto split: list.splits)
  qed
qed

lemma str_join_Cons:
  "rs \<noteq> [] \<Longrightarrow> str_join sep (r # rs) = r @ sep @ str_join sep rs"
  by (cases rs) simp_all

lemma str_join_no_CR:
  "\<forall>r \<in> set rs. CR \<notin> set r \<Longrightarrow> CR \<notin> set (str_join [LF] rs)"
  by (induction "[LF]" rs rule: str_join.induct) auto

lemma str_join_count_LF:
  "\<forall>r \<in> set rs. LF \<notin> set r \<Longrightarrow>
   length (filter (\<lambda>c. c = LF) (str_join [LF] rs)) = length rs - 1"
  by (induction "[LF]" rs rule: str_join.induct) (auto simp: filter_empty_conv)

lemma str_join_eq_Nil:
  "\<forall>r \<in> set rs. r \<noteq> [] \<Longrightarrow> str_join sep rs = [] \<longleftrightarrow> rs = []"
  by (induction sep rs rule: str_join.induct) auto

lemma str_join_not_Nil:
  "rs \<noteq> [] \<Longrightarrow> last rs \<noteq> [] \<Longrightarrow> str_join sep rs \<noteq> []"
  by (induction sep rs rule: str_join.induct) simp_all

lemma last_str_join:
  "rs \<noteq> [] \<Longrightarrow> last rs \<noteq> [] \<Longrightarrow> last (str_join sep rs) = last (last rs)"
proof (induction sep rs rule: str_join.induct)
  case (3 sep x y ys)
  then have "str_join sep (y # ys) \<noteq> []"
    using str_join_not_Nil [of "y # ys" sep] by simp
  with 3 show ?case by simp
qed simp_all

lemma re_split_append_LF:
  "CR \<notin> set r \<Longrightarrow> LF \<notin> set r \<Longrightarrow>
   re_split_LINE_BREAK (r @ LF # s) = r # re_split_LINE_BREAK s"
  by (induction r) auto

lemma re_split_str_join:
  "rs \<noteq> [] \<Longrightarrow> \<forall>r \<in> set rs. CR \<notin> set r \<and> LF \<notin> set r \<Longrightarrow>
   re_split_LINE_BREAK (str_join [LF] rs) = rs"
proof (induction "[LF]" rs rule: str_join.induct)
  case 1
  then show ?case by simp
next
  case (2 x)
  then show ?case by (simp add: re_split_no_breaks)
next
  case (3 x y ys)
  then show ?case by (simp add: re_split_append_LF)
qed

section \<open>Properties of the match\<close>

lemma literal_Some: "literal p s = Some r \<longleftrightarrow> s = p @ r"
  by (induction p s rule: literal.induct) auto

lemma digits1_Some:
  assumes "digits1 s = Some (ds, r)"
  shows "s = ds @ r" and "ds \<noteq> []" and "\<forall>c \<in> set ds. is_digit c"
proof -
  from assms have ds: "ds = takeWhile is_digit s" and r: "r = dropWhile is_digit s"
    and ne: "ds \<noteq> []"
    by (auto simp: digits1_def Let_def split: if_splits)
  from ds r show "s = ds @ r" by simp
  from ne show "ds \<noteq> []" .
  from ds show "\<forall>c \<in> set ds. is_digit c" by (auto dest: set_takeWhileD)
qed

lemma error_code_token_Some:
  assumes "error_code_token s = Some (code, r)"
  shows "s = code @ r"
    and "\<exists>a b c d. code = [a, b, c, d] \<and> is_upper a \<and> is_digit b \<and> is_digit c \<and> is_digit d"
proof -
  from assms obtain a b c d where s: "s = a # b # c # d # r" and code: "code = [a, b, c, d]"
    and ok: "is_upper a \<and> is_digit b \<and> is_digit c \<and> is_digit d"
    by (cases s rule: error_code_token.cases) (auto split: if_splits)
  from s code show "s = code @ r" by simp
  from code ok show "\<exists>a b c d. code = [a, b, c, d] \<and>
      is_upper a \<and> is_digit b \<and> is_digit c \<and> is_digit d" by blast
qed

lemma message_token_Some:
  assumes "message_token s = Some msg"
  shows "s = msg \<or> s = msg @ [LF]" and "LF \<notin> set msg"
proof -
  from assms have msg: "msg = takeWhile (\<lambda>c. c \<noteq> LF) s"
    and r: "dropWhile (\<lambda>c. c \<noteq> LF) s = [] \<or> dropWhile (\<lambda>c. c \<noteq> LF) s = [LF]"
    by (auto simp: message_token_def Let_def split: if_splits)
  have "s = takeWhile (\<lambda>c. c \<noteq> LF) s @ dropWhile (\<lambda>c. c \<noteq> LF) s" by simp
  with msg r show "s = msg \<or> s = msg @ [LF]" by (metis append_Nil2)
  from msg show "LF \<notin> set msg" by (auto dest: set_takeWhileD)
qed

lemma match_after_file_path_Some:
  assumes "match_after_file_path fp s = Some m"
  shows "file_path m = fp"
    and "s = '':cell '' @ cell m @ '':'' @ line m @ '':'' @ column m @ '': '' @
             error_code m @ '' '' @ message m \<or>
         s = '':cell '' @ cell m @ '':'' @ line m @ '':'' @ column m @ '': '' @
             error_code m @ '' '' @ message m @ [LF]"
    and "cell m \<noteq> [] \<and> (\<forall>c \<in> set (cell m). is_digit c)"
    and "line m \<noteq> [] \<and> (\<forall>c \<in> set (line m). is_digit c)"
    and "column m \<noteq> [] \<and> (\<forall>c \<in> set (column m). is_digit c)"
    and "\<exists>a b c d. error_code m = [a, b, c, d] \<and>
                   is_upper a \<and> is_digit b \<and> is_digit c \<and> is_digit d"
    and "LF \<notin> set (message m)"
proof -
  from assms obtain s1 c s2 s3 l s4 s5 col s6 s7 code s8 s9 msg where
    1: "literal '':cell '' s = Some s1" and 2: "digits1 s1 = Some (c, s2)" and
    3: "literal '':'' s2 = Some s3" and 4: "digits1 s3 = Some (l, s4)" and
    5: "literal '':'' s4 = Some s5" and 6: "digits1 s5 = Some (col, s6)" and
    7: "literal '': '' s6 = Some s7" and 8: "error_code_token s7 = Some (code, s8)" and
    9: "literal '' '' s8 = Some s9" and 10: "message_token s9 = Some msg" and
    m: "m = \<lparr>file_path = fp, cell = c, line = l, column = col,
              error_code = code, message = msg\<rparr>"
    unfolding match_after_file_path_def
    by (auto simp: bind_eq_Some_conv)
  from m show "file_path m = fp" by simp
  from 1 have e1: "s = '':cell '' @ s1" by (simp only: literal_Some)
  from 3 have e3: "s2 = '':'' @ s3" by (simp only: literal_Some)
  from 5 have e5: "s4 = '':'' @ s5" by (simp only: literal_Some)
  from 7 have e7: "s6 = '': '' @ s7" by (simp only: literal_Some)
  from 9 have e9: "s8 = '' '' @ s9" by (simp only: literal_Some)
  note d2 = digits1_Some [OF 2] and d4 = digits1_Some [OF 4] and d6 = digits1_Some [OF 6]
    and c8 = error_code_token_Some [OF 8] and m10 = message_token_Some [OF 10]
  from m10(1) show "s = '':cell '' @ cell m @ '':'' @ line m @ '':'' @ column m @ '': '' @
             error_code m @ '' '' @ message m \<or>
         s = '':cell '' @ cell m @ '':'' @ line m @ '':'' @ column m @ '': '' @
             error_code m @ '' '' @ message m @ [LF]"
    using e1 d2(1) e3 d4(1) e5 d6(1) e7 c8(1) e9 m by auto
  from d2 m show "cell m \<noteq> [] \<and> (\<forall>c \<in> set (cell m). is_digit c)" by simp
  from d4 m show "line m \<noteq> [] \<and> (\<forall>c \<in> set (line m). is_digit c)" by simp
  from d6 m show "column m \<noteq> [] \<and> (\<forall>c \<in> set (column m). is_digit c)" by simp
  from c8(2) m show "\<exists>a b c d. error_code m = [a, b, c, d] \<and>
                   is_upper a \<and> is_digit b \<and> is_digit c \<and> is_digit d" by simp
  from m10(2) m show "LF \<notin> set (message m)" by simp
qed

lemma lazy_file_path_Some:
  "lazy_file_path fp s = Some m \<Longrightarrow>
   \<exists>pre rest. s = pre @ rest \<and> LF \<notin> set pre \<and>
              match_after_file_path (fp @ pre) rest = Some m"
proof (induction fp s rule: lazy_file_path.induct)
  case (1 fp)
  then show ?case by simp
next
  case (2 fp x xs)
  show ?case
  proof (cases "match_after_file_path fp (x # xs)")
    case (Some m')
    with "2.prems" have "match_after_file_path (fp @ []) ([] @ x # xs) = Some m" by simp
    then show ?thesis by (metis append_Nil empty_iff list.set(1))
  next
    case None
    with "2.prems" have x: "x \<noteq> LF" and rec: "lazy_file_path (fp @ [x]) xs = Some m"
      by (auto split: if_splits)
    from "2.IH" [OF None x rec] obtain pre rest where
      "xs = pre @ rest" "LF \<notin> set pre" "match_after_file_path ((fp @ [x]) @ pre) rest = Some m"
      by blast
    with x have "x # xs = (x # pre) @ rest \<and> LF \<notin> set (x # pre) \<and>
       match_after_file_path (fp @ (x # pre)) rest = Some m" by simp
    then show ?thesis by blast
  qed
qed

lemma re_match_Some:
  assumes "re_match s = Some m"
  shows "\<exists>rest. s = file_path m @ rest \<and> match_after_file_path (file_path m) rest = Some m"
    and "file_path m \<noteq> []" and "LF \<notin> set (file_path m)"
proof -
  from assms obtain x xs where s: "s = x # xs" and x: "x \<noteq> LF"
    and l: "lazy_file_path [x] xs = Some m"
    by (cases s) (auto split: if_splits)
  from lazy_file_path_Some [OF l] obtain pre rest where
    xs: "xs = pre @ rest" and pre: "LF \<notin> set pre"
    and ma: "match_after_file_path ([x] @ pre) rest = Some m" by blast
  from match_after_file_path_Some(1) [OF ma] have fp: "file_path m = x # pre" by simp
  with s xs ma show "\<exists>rest. s = file_path m @ rest \<and>
      match_after_file_path (file_path m) rest = Some m" by auto
  from fp show "file_path m \<noteq> []" by simp
  from fp x pre show "LF \<notin> set (file_path m)" by simp
qed

lemma re_match_text:
  assumes "re_match s = Some m"
  shows "s = ruff_concise_line m \<or> s = ruff_concise_line m @ [LF]"
proof -
  from re_match_Some(1) [OF assms] obtain rest where
    s: "s = file_path m @ rest" and ma: "match_after_file_path (file_path m) rest = Some m"
    by blast
  from match_after_file_path_Some(2) [OF ma] s show ?thesis
    by (auto simp: ruff_concise_line_def)
qed

lemma re_match_text_line:
  assumes "re_match s = Some m" and "LF \<notin> set s"
  shows "s = ruff_concise_line m"
  using re_match_text [OF assms(1)] assms(2) by auto

lemma re_match_groups_subset:
  assumes "re_match s = Some m"
  shows "set (file_path m) \<subseteq> set s" and "set (message m) \<subseteq> set s"
proof -
  from re_match_text [OF assms] have "\<exists>t. s = ruff_concise_line m @ t" by auto
  then obtain t where s: "s = ruff_concise_line m @ t" ..
  show "set (file_path m) \<subseteq> set s"
    unfolding s ruff_concise_line_def by (simp add: subset_iff)
  show "set (message m) \<subseteq> set s"
    unfolding s ruff_concise_line_def by (simp add: subset_iff)
qed

section \<open>Properties of the rendered lines\<close>

lemma is_digit_char_of: "d < 10 \<Longrightarrow> is_digit (char_of (48 + d :: nat))"
  by (simp add: is_digit_def)

lemma str_nat_digits: "c \<in> set (str_nat n) \<Longrightarrow> is_digit c"
proof (induction n rule: str_nat.induct)
  case (1 n)
  show ?case
  proof (cases "n < 10")
    case True
    with "1.prems" have "c = char_of (48 + n)" by (simp add: str_nat.simps [of n])
    with True show ?thesis by (simp add: is_digit_char_of)
  next
    case False
    with "1.prems" have "c \<in> set (str_nat (n div 10)) \<or> c = char_of (48 + n mod 10)"
      by (auto simp: str_nat.simps [of n])
    with "1.IH" False show ?thesis by (auto simp: is_digit_char_of)
  qed
qed

lemma str_nat_not_Nil: "str_nat n \<noteq> []"
  by (simp add: str_nat.simps [of n])

lemma is_digit_no_break: "is_digit c \<Longrightarrow> c \<noteq> CR \<and> c \<noteq> LF"
  by (auto simp: is_digit_def)

lemma is_upper_no_break: "is_upper c \<Longrightarrow> c \<noteq> CR \<and> c \<noteq> LF"
  by (auto simp: is_upper_def)

lemma py_str_no_break: "CR \<notin> set (py_str i) \<and> LF \<notin> set (py_str i)"
  using str_nat_digits is_digit_no_break by (auto simp: py_str_def)

lemma render_not_Nil: "render m offset \<noteq> []"
  by (simp add: render_def py_str_def str_nat_not_Nil)

lemma render_no_break:
  assumes "re_match s = Some m" and "CR \<notin> set s" and "LF \<notin> set s"
  shows "CR \<notin> set (render m offset) \<and> LF \<notin> set (render m offset)"
proof -
  from re_match_groups_subset [OF assms(1)] assms(2,3)
  have fp: "CR \<notin> set (file_path m) \<and> LF \<notin> set (file_path m)"
    and msg: "CR \<notin> set (message m) \<and> LF \<notin> set (message m)" by auto
  from re_match_Some(1) [OF assms(1)] obtain rest where
    "match_after_file_path (file_path m) rest = Some m" by blast
  from match_after_file_path_Some(6) [OF this] obtain a b c d where
    "error_code m = [a, b, c, d]" "is_upper a" "is_digit b" "is_digit c" "is_digit d"
    by blast
  then have code: "CR \<notin> set (error_code m) \<and> LF \<notin> set (error_code m)"
    using is_digit_no_break is_upper_no_break by auto
  from fp msg code py_str_no_break [of "offset + py_int (line m)"]
    py_str_no_break [of "py_int (column m) - 1"]
  show ?thesis by (simp add: render_def)
qed

section \<open>Properties of the list comprehension\<close>

lemma py_getitem_error: "py_getitem xs i = Inl e \<Longrightarrow> e = IndexError"
  by (auto simp: py_getitem_def split: if_splits)

lemma py_getitem_out_of_range:
  "int (length xs) \<le> i \<Longrightarrow> py_getitem xs i = Inl IndexError"
  by (simp add: py_getitem_def)

lemma py_getitem_minus_1: "xs \<noteq> [] \<Longrightarrow> py_getitem xs (- 1) = Inr (last xs)"
  by (cases xs rule: rev_cases) (simp_all add: py_getitem_def nth_append)

lemma transformed_lines_error:
  "transformed_lines offsets ls = Inl e \<Longrightarrow> e = IndexError"
  by (induction ls) (auto split: option.splits sum.splits dest: py_getitem_error)

lemma transformed_lines_skip:
  "re_match l = None \<Longrightarrow>
   transformed_lines offsets (before @ l # after) = transformed_lines offsets (before @ after)"
  by (induction before) (simp_all split: option.splits sum.splits)

lemma transformed_lines_filter:
  "transformed_lines offsets (filter (\<lambda>l. re_match l \<noteq> None) ls)
     = transformed_lines offsets ls"
  by (induction ls) (auto split: option.splits sum.splits)

lemma transformed_lines_no_match:
  "\<forall>l \<in> set ls. re_match l = None \<Longrightarrow> transformed_lines offsets ls = Inr []"
  by (induction ls) simp_all

lemma transformed_lines_raises:
  "l \<in> set ls \<Longrightarrow> re_match l = Some m \<Longrightarrow>
   py_getitem offsets (py_int (cell m) - 1) = Inl e \<Longrightarrow>
   transformed_lines offsets ls = Inl IndexError"
proof (induction ls)
  case Nil
  then show ?case by simp
next
  case (Cons a ls)
  show ?case
  proof (cases "a = l")
    case True
    with Cons.prems py_getitem_error [of offsets "py_int (cell m) - 1" e]
    show ?thesis by simp
  next
    case False
    with Cons have rec: "transformed_lines offsets ls = Inl IndexError" by simp
    then show ?thesis
      by (auto split: option.splits sum.splits dest: py_getitem_error)
  qed
qed

lemma transformed_lines_returns:
  "\<forall>l \<in> set ls. \<forall>m. re_match l = Some m \<longrightarrow>
      (\<exists>offset. py_getitem offsets (py_int (cell m) - 1) = Inr offset) \<Longrightarrow>
   \<exists>rendered. transformed_lines offsets ls = Inr rendered"
  by (induction ls) (auto split: option.splits sum.splits)

lemma transformed_lines_rendering:
  "transformed_lines offsets ls = Inr rendered \<Longrightarrow>
   list_all2 (rendering_of offsets) (filter (\<lambda>l. re_match l \<noteq> None) ls) rendered"
  by (induction ls arbitrary: rendered)
     (auto simp: rendering_of_def split: option.splits sum.splits)

lemma transformed_lines_length:
  "transformed_lines offsets ls = Inr rendered \<Longrightarrow>
   length rendered = length (filter (\<lambda>l. re_match l \<noteq> None) ls)"
  using transformed_lines_rendering [of offsets ls rendered]
  by (simp add: list_all2_lengthD)

lemma transformed_lines_no_break:
  "transformed_lines offsets ls = Inr rendered \<Longrightarrow>
   \<forall>l \<in> set ls. CR \<notin> set l \<and> LF \<notin> set l \<Longrightarrow>
   \<forall>r \<in> set rendered. r \<noteq> [] \<and> CR \<notin> set r \<and> LF \<notin> set r"
proof (induction ls arbitrary: rendered)
  case Nil
  then show ?case by simp
next
  case (Cons l ls)
  show ?case
  proof (cases "re_match l")
    case None
    with Cons show ?thesis by simp
  next
    case (Some m)
    with Cons.prems(1) obtain offset rest where
      rest: "transformed_lines offsets ls = Inr rest" and r: "rendered = render m offset # rest"
      by (auto split: sum.splits)
    from Cons.prems(2) have l: "CR \<notin> set l" "LF \<notin> set l" by simp_all
    from Cons.IH [OF rest] Cons.prems(2)
    have "\<forall>r \<in> set rest. r \<noteq> [] \<and> CR \<notin> set r \<and> LF \<notin> set r" by simp
    with r render_no_break [OF Some l, of offset] render_not_Nil [of m offset]
    show ?thesis by simp
  qed
qed

lemma transform_single_line:
  assumes "re_match ruff_line = Some m" and "CR \<notin> set ruff_line" and "LF \<notin> set ruff_line"
  shows "transform_ruff_to_jetbrains_compatible_output ruff_line cell_sources =
           (case py_getitem (compute_jetbrains_cell_offsets cell_sources) (py_int (cell m) - 1) of
              Inl e \<Rightarrow> Inl e
            | Inr offset \<Rightarrow> Inr (render m offset))"
  using assms
  by (simp add: transform_ruff_to_jetbrains_compatible_output_def re_split_no_breaks
        split: sum.splits)

section \<open>Rewriting a diagnostic\<close>

text \<open>
  C1. A line of the linter's output that matches the pattern is the text
  \<open>file_path:cell cell:line:column: error_code message\<close> of its groups. When the
  subscript \<open>offsets[cell - 1]\<close> yields an offset, the line is rewritten to
  \<open>file_path:(offset + line):(column - 1): Ruff (error_code): message\<close>. With the
  offsets \<open>[1, 4]\<close> (those of the cells \<open>a\nb\<close> and \<open>c\<close>) the line
  \<open>nb.ipynb:cell 2:3:5: E501 line too long\<close> becomes
  \<open>nb.ipynb:7:4: Ruff (E501): line too long\<close>.
\<close>

theorem rewrite_of_matching_line:
  assumes "re_match ruff_line = Some m"
    and "CR \<notin> set ruff_line" and "LF \<notin> set ruff_line"
    and "py_getitem (compute_jetbrains_cell_offsets cell_sources) (py_int (cell m) - 1)
           = Inr offset"
  shows "ruff_line = file_path m @ '':cell '' @ cell m @ '':'' @ line m @ '':'' @
                     column m @ '': '' @ error_code m @ '' '' @ message m \<and>
         transform_ruff_to_jetbrains_compatible_output ruff_line cell_sources
           = Inr (file_path m @ '':'' @ py_str (offset + py_int (line m)) @ '':'' @
                  py_str (py_int (column m) - 1) @ '': Ruff ('' @ error_code m @ ''): '' @
                  message m) \<and>
         transformed_lines [1, 4] [''nb.ipynb:cell 2:3:5: E501 line too long'']
           = Inr [''nb.ipynb:7:4: Ruff (E501): line too long''] \<and>
         compute_jetbrains_cell_offsets [[CHR ''a'', LF, CHR ''b''], ''c''] = [1, 4] \<and>
         transform_ruff_to_jetbrains_compatible_output
             ''nb.ipynb:cell 2:3:5: E501 line too long'' [[CHR ''a'', LF, CHR ''b''], ''c'']
           = Inr ''nb.ipynb:7:4: Ruff (E501): line too long''"
proof -
  from re_match_text_line [OF assms(1,3)]
  have shape: "ruff_line = file_path m @ '':cell '' @ cell m @ '':'' @ line m @ '':'' @
                     column m @ '': '' @ error_code m @ '' '' @ message m"
    by (simp add: ruff_concise_line_def)
  from transform_single_line [OF assms(1-3), of cell_sources] assms(4)
  have out: "transform_ruff_to_jetbrains_compatible_output ruff_line cell_sources
           = Inr (file_path m @ '':'' @ py_str (offset + py_int (line m)) @ '':'' @
                  py_str (py_int (column m) - 1) @ '': Ruff ('' @ error_code m @ ''): '' @
                  message m)"
    by (simp add: render_def)
  have ex1: "transformed_lines [1, 4] [''nb.ipynb:cell 2:3:5: E501 line too long'']
           = Inr [''nb.ipynb:7:4: Ruff (E501): line too long'']"
    by code_simp
  have ex2: "compute_jetbrains_cell_offsets [[CHR ''a'', LF, CHR ''b''], ''c''] = [1, 4]"
    by code_simp
  have ex3: "transform_ruff_to_jetbrains_compatible_output
             ''nb.ipynb:cell 2:3:5: E501 line too long'' [[CHR ''a'', LF, CHR ''b''], ''c'']
           = Inr ''nb.ipynb:7:4: Ruff (E501): line too long''"
    by code_simp
  from shape out ex1 ex2 ex3 show ?thesis by (intro conjI)
qed

theorem rewrite_of_matching_line_witness:
  "transform_ruff_to_jetbrains_compatible_output
     ''nb.ipynb:cell 1:2:3: W291 trailing whitespace'' [''x'']
   = Inr ''nb.ipynb:3:2: Ruff (W291): trailing whitespace''"
proof -
  let ?l = "''nb.ipynb:cell 1:2:3: W291 trailing whitespace''"
  let ?m = "\<lparr>file_path = ''nb.ipynb'', cell = ''1'', line = ''2'', column = ''3'',
             error_code = ''W291'', message = ''trailing whitespace''\<rparr>"
  have 1: "re_match ?l = Some ?m" by code_simp
  have 2: "CR \<notin> set ?l" by simp
  have 3: "LF \<notin> set ?l" by simp
  have 4: "py_getitem (compute_jetbrains_cell_offsets [''x'']) (py_int (cell ?m) - 1) = Inr 1"
    by code_simp
  have 5: "file_path ?m @ '':'' @ py_str (1 + py_int (line ?m)) @ '':'' @
           py_str (py_int (column ?m) - 1) @ '': Ruff ('' @ error_code ?m @ ''): '' @ message ?m
           = ''nb.ipynb:3:2: Ruff (W291): trailing whitespace''"
    by code_simp
  from rewrite_of_matching_line [OF 1 2 3 4]
  have "transform_ruff_to_jetbrains_compatible_output ?l [''x'']
           = Inr (file_path ?m @ '':'' @ py_str (1 + py_int (line ?m)) @ '':'' @
                  py_str (py_int (column ?m) - 1) @ '': Ruff ('' @ error_code ?m @ ''): '' @
                  message ?m)"
    by (rule conjunct2 [THEN conjunct1])
  with 5 show ?thesis by (simp only:)
qed

section \<open>Cell numbers out of range\<close>

text \<open>
  C6. When a line of the linter's output matches the pattern and its cell number is
  greater than the number of offsets, the subscript \<open>offsets[cell - 1]\<close> raises
  \<open>IndexError\<close>, and so does the whole transformation: no rewritten text is returned.
\<close>

theorem cell_beyond_offsets_raises:
  assumes "ruff_line \<in> set (re_split_LINE_BREAK ruff_output)"
    and "re_match ruff_line = Some m"
    and "int (length (compute_jetbrains_cell_offsets cell_sources)) < py_int (cell m)"
  shows "py_getitem (compute_jetbrains_cell_offsets cell_sources) (py_int (cell m) - 1)
           = Inl IndexError \<and>
         transform_ruff_to_jetbrains_compatible_output ruff_output cell_sources
           = Inl IndexError"
proof -
  from assms(3)
  have lookup: "py_getitem (compute_jetbrains_cell_offsets cell_sources) (py_int (cell m) - 1)
           = Inl IndexError"
    by (simp add: py_getitem_out_of_range)
  from transformed_lines_raises [OF assms(1,2) lookup]
  have "transform_ruff_to_jetbrains_compatible_output ruff_output cell_sources
           = Inl IndexError"
    by (simp add: transform_ruff_to_jetbrains_compatible_output_def)
  with lookup show ?thesis by (intro conjI)
qed

theorem cell_beyond_offsets_raises_witness:
  "transform_ruff_to_jetbrains_compatible_output
     (''All checks done'' @ [LF] @ ''nb.ipynb:cell 3:3:5: E501 line too long'')
     [[CHR ''a'', LF, CHR ''b''], ''c'']
   = Inl IndexError"
proof -
  let ?l = "''nb.ipynb:cell 3:3:5: E501 line too long''"
  let ?m = "\<lparr>file_path = ''nb.ipynb'', cell = ''3'', line = ''3'', column = ''5'',
             error_code = ''E501'', message = ''line too long''\<rparr>"
  let ?cells = "[[CHR ''a'', LF, CHR ''b''], ''c'']"
  have 1: "?l \<in> set (re_split_LINE_BREAK (''All checks done'' @ [LF] @ ?l))"
    by (simp add: re_split_append_LF re_split_no_breaks)
  have 2: "re_match ?l = Some ?m" by code_simp
  have 3: "int (length (compute_jetbrains_cell_offsets ?cells)) < py_int (cell ?m)"
    by (simp add: length_offsets py_int_def)
  from cell_beyond_offsets_raises [OF 1 2 3] show ?thesis by (rule conjunct2)
qed

text \<open>
  C9. A line that matches the pattern with the cell number 0 does not make the
  transformation fail when there is at least one cell: the index \<open>0 - 1 = -1\<close> reads
  the last offset, the one of the last cell, and the line is rewritten with it. So the
  line \<open>nb.ipynb:cell 0:3:5: E501 line too long\<close> and the cells \<open>a\nb\<close> and \<open>c\<close> give
  \<open>nb.ipynb:7:4: Ruff (E501): line too long\<close>.
\<close>

theorem cell_zero_reads_last_offset:
  assumes "re_match ruff_line = Some m" and "py_int (cell m) = 0"
    and "CR \<notin> set ruff_line" and "LF \<notin> set ruff_line"
    and "cell_sources \<noteq> []"
  shows "py_getitem (compute_jetbrains_cell_offsets cell_sources) (py_int (cell m) - 1)
           = Inr (last (compute_jetbrains_cell_offsets cell_sources)) \<and>
         last (compute_jetbrains_cell_offsets cell_sources)
           = compute_jetbrains_cell_offsets cell_sources ! (length cell_sources - 1) \<and>
         transform_ruff_to_jetbrains_compatible_output ruff_line cell_sources
           = Inr (render m (last (compute_jetbrains_cell_offsets cell_sources))) \<and>
         re_match ''nb.ipynb:cell 0:3:5: E501 line too long''
           = Some \<lparr>file_path = ''nb.ipynb'', cell = ''0'', line = ''3'', column = ''5'',
                   error_code = ''E501'', message = ''line too long''\<rparr> \<and>
         transform_ruff_to_jetbrains_compatible_output
             ''nb.ipynb:cell 0:3:5: E501 line too long'' [[CHR ''a'', LF, CHR ''b''], ''c'']
           = Inr ''nb.ipynb:7:4: Ruff (E501): line too long''"
proof -
  let ?offsets = "compute_jetbrains_cell_offsets cell_sources"
  have ne: "?offsets \<noteq> []"
    using length_offsets [of cell_sources] by (cases ?offsets) simp_all
  from assms(2) py_getitem_minus_1 [OF ne]
  have lookup: "py_getitem ?offsets (py_int (cell m) - 1) = Inr (last ?offsets)" by simp
  from assms(5) have len: "length ?offsets = length cell_sources"
    by (cases cell_sources) (simp_all add: length_offsets)
  with ne have lst: "last ?offsets = ?offsets ! (length cell_sources - 1)"
    by (simp add: last_conv_nth)
  from transform_single_line [OF assms(1,3,4), of cell_sources] lookup
  have out: "transform_ruff_to_jetbrains_compatible_output ruff_line cell_sources
           = Inr (render m (last ?offsets))" by simp
  have ex1: "re_match ''nb.ipynb:cell 0:3:5: E501 line too long''
           = Some \<lparr>file_path = ''nb.ipynb'', cell = ''0'', line = ''3'', column = ''5'',
                   error_code = ''E501'', message = ''line too long''\<rparr>"
    by code_simp
  have ex2: "transform_ruff_to_jetbrains_compatible_output
             ''nb.ipynb:cell 0:3:5: E501 line too long'' [[CHR ''a'', LF, CHR ''b''], ''c'']
           = Inr ''nb.ipynb:7:4: Ruff (E501): line too long''"
    by code_simp
  from lookup lst out ex1 ex2 show ?thesis by (intro conjI)
qed

theorem cell_zero_reads_last_offset_witness:
  "transform_ruff_to_jetbrains_compatible_output ''nb.ipynb:cell 0:1:1: F401 unused''
     [''x'', ''y'', ''z'']
   = Inr ''nb.ipynb:6:0: Ruff (F401): unused''"
proof -
  let ?l = "''nb.ipynb:cell 0:1:1: F401 unused''"
  let ?m = "\<lparr>file_path = ''nb.ipynb'', cell = ''0'', line = ''1'', column = ''1'',
             error_code = ''F401'', message = ''unused''\<rparr>"
  let ?cells = "[''x'', ''y'', ''z'']"
  have 1: "re_match ?l = Some ?m" by code_simp
  have 2: "py_int (cell ?m) = 0" by (simp add: py_int_def)
  have 3: "CR \<notin> set ?l" by simp
  have 4: "LF \<notin> set ?l" by simp
  have 5: "?cells \<noteq> []" by simp
  have 6: "render ?m (last (compute_jetbrains_cell_offsets ?cells))
             = ''nb.ipynb:6:0: Ruff (F401): unused''"
    by code_simp
  from cell_zero_reads_last_offset [OF 1 2 3 4 5]
  have "transform_ruff_to_jetbrains_compatible_output ?l ?cells
           = Inr (render ?m (last (compute_jetbrains_cell_offsets ?cells)))"
    by (rule conjunct2 [THEN conjunct2, THEN conjunct1])
  with 6 show ?thesis by (simp only:)
qed

text \<open>
  C10. For the list of no cells the offsets are \<open>[1]\<close>. So a line that matches the
  pattern with the cell number 1 is rewritten without an exception although there is no
  cell, with the line number \<open>1 + line\<close>.
\<close>

theorem no_cells_cell_one_is_rewritten:
  assumes "re_match ruff_line = Some m" and "py_int (cell m) = 1"
    and "CR \<notin> set ruff_line" and "LF \<notin> set ruff_line"
  shows "compute_jetbrains_cell_offsets [] = [1] \<and>
         transform_ruff_to_jetbrains_compatible_output ruff_line []
           = Inr (file_path m @ '':'' @ py_str (1 + py_int (line m)) @ '':'' @
                  py_str (py_int (column m) - 1) @ '': Ruff ('' @ error_code m @ ''): '' @
                  message m) \<and>
         transform_ruff_to_jetbrains_compatible_output
             ''nb.ipynb:cell 1:3:5: E501 line too long'' []
           = Inr ''nb.ipynb:4:4: Ruff (E501): line too long''"
proof -
  have offs: "compute_jetbrains_cell_offsets [] = [1]"
    by (simp add: compute_jetbrains_cell_offsets_def jetbrains_full_cell_line_counts_def)
  from assms(2) offs
  have lookup: "py_getitem (compute_jetbrains_cell_offsets []) (py_int (cell m) - 1) = Inr 1"
    by (simp add: py_getitem_def)
  from transform_single_line [OF assms(1,3,4), of "[]"] lookup
  have out: "transform_ruff_to_jetbrains_compatible_output ruff_line []
           = Inr (file_path m @ '':'' @ py_str (1 + py_int (line m)) @ '':'' @
                  py_str (py_int (column m) - 1) @ '': Ruff ('' @ error_code m @ ''): '' @
                  message m)"
    by (simp add: render_def)
  have ex: "transform_ruff_to_jetbrains_compatible_output
             ''nb.ipynb:cell 1:3:5: E501 line too long'' []
           = Inr ''nb.ipynb:4:4: Ruff (E501): line too long''"
    by code_simp
  from offs out ex show ?thesis by (intro conjI)
qed

theorem no_cells_cell_one_is_rewritten_witness:
  "transform_ruff_to_jetbrains_compatible_output ''nb.ipynb:cell 1:9:2: E111 indent'' []
   = Inr ''nb.ipynb:10:1: Ruff (E111): indent''"
proof -
  let ?l = "''nb.ipynb:cell 1:9:2: E111 indent''"
  let ?m = "\<lparr>file_path = ''nb.ipynb'', cell = ''1'', line = ''9'', column = ''2'',
             error_code = ''E111'', message = ''indent''\<rparr>"
  have 1: "re_match ?l = Some ?m" by code_simp
  have 2: "py_int (cell ?m) = 1" by (simp add: py_int_def)
  have 3: "CR \<notin> set ?l" by simp
  have 4: "LF \<notin> set ?l" by simp
  have 5: "file_path ?m @ '':'' @ py_str (1 + py_int (line ?m)) @ '':'' @
           py_str (py_int (column ?m) - 1) @ '': Ruff ('' @ error_code ?m @ ''): '' @ message ?m
           = ''nb.ipynb:10:1: Ruff (E111): indent''"
    by code_simp
  from no_cells_cell_one_is_rewritten [OF 1 2 3 4]
  have "transform_ruff_to_jetbrains_compatible_output ?l []
           = Inr (file_path ?m @ '':'' @ py_str (1 + py_int (line ?m)) @ '':'' @
                  py_str (py_int (column ?m) - 1) @ '': Ruff ('' @ error_code ?m @ ''): '' @
                  message ?m)"
    by (rule conjunct2 [THEN conjunct1])
  with 5 show ?thesis by (simp only:)
qed

section \<open>Lines that do not match, line breaks\<close>

lemma lazy_file_path_minimal:
  "lazy_file_path fp s = Some m \<Longrightarrow>
   \<exists>pre rest. s = pre @ rest \<and> file_path m = fp @ pre \<and>
     (\<forall>k < length pre. match_after_file_path (fp @ take k pre) (drop k s) = None)"
proof (induction fp s rule: lazy_file_path.induct)
  case (1 fp)
  from match_after_file_path_Some(1) [of fp "[]" m] "1.prems"
  have "file_path m = fp" by simp
  then show ?case by simp
next
  case (2 fp x xs)
  show ?case
  proof (cases "match_after_file_path fp (x # xs)")
    case (Some m')
    with "2.prems" have "match_after_file_path fp (x # xs) = Some m" by simp
    from match_after_file_path_Some(1) [OF this] have "file_path m = fp" .
    then have "x # xs = [] @ (x # xs) \<and> file_path m = fp @ [] \<and>
      (\<forall>k < length ([] :: string).
          match_after_file_path (fp @ take k []) (drop k (x # xs)) = None)" by simp
    then show ?thesis by blast
  next
    case None
    with "2.prems" have x: "x \<noteq> LF" and rec: "lazy_file_path (fp @ [x]) xs = Some m"
      by (auto split: if_splits)
    from "2.IH" [OF None x rec] obtain pre rest where
      xs: "xs = pre @ rest" and fp: "file_path m = (fp @ [x]) @ pre" and
      mi: "\<forall>k < length pre. match_after_file_path ((fp @ [x]) @ take k pre) (drop k xs) = None"
      by blast
    have "match_after_file_path (fp @ take k (x # pre)) (drop k (x # xs)) = None"
      if "k < length (x # pre)" for k
    proof (cases k)
      case 0
      with None show ?thesis by simp
    next
      case (Suc j)
      with that mi show ?thesis by simp
    qed
    with xs fp have "x # xs = (x # pre) @ rest \<and> file_path m = fp @ (x # pre) \<and>
      (\<forall>k < length (x # pre).
          match_after_file_path (fp @ take k (x # pre)) (drop k (x # xs)) = None)"
      by simp
    then show ?thesis by blast
  qed
qed

lemma re_match_lazy:
  assumes "re_match s = Some m" and "0 < k" and "k < length (file_path m)"
  shows "match_after_file_path (take k s) (drop k s) = None"
proof -
  from assms(1) obtain x xs where s: "s = x # xs" and l: "lazy_file_path [x] xs = Some m"
    by (cases s) (auto split: if_splits)
  from lazy_file_path_minimal [OF l] obtain pre rest where
    xs: "xs = pre @ rest" and fp: "file_path m = [x] @ pre" and
    mi: "\<forall>k < length pre. match_after_file_path ([x] @ take k pre) (drop k xs) = None"
    by blast
  from assms(2) obtain j where k: "k = Suc j" by (cases k) simp_all
  with assms(3) fp have j: "j < length pre" by simp
  with mi have "match_after_file_path ([x] @ take j pre) (drop j xs) = None" by simp
  with s k xs j show ?thesis by simp
qed

lemma transform_output:
  assumes "transform_ruff_to_jetbrains_compatible_output ruff_output cell_sources = Inr out"
  obtains rendered where
    "transformed_lines (compute_jetbrains_cell_offsets cell_sources)
       (re_split_LINE_BREAK ruff_output) = Inr rendered"
    and "out = str_join [LF] rendered"
    and "\<forall>r \<in> set rendered. r \<noteq> [] \<and> CR \<notin> set r \<and> LF \<notin> set r"
proof -
  from assms obtain rendered where
    tl: "transformed_lines (compute_jetbrains_cell_offsets cell_sources)
           (re_split_LINE_BREAK ruff_output) = Inr rendered"
    and out: "out = str_join [LF] rendered"
    by (auto simp: transform_ruff_to_jetbrains_compatible_output_def split: sum.splits)
  have "\<forall>l \<in> set (re_split_LINE_BREAK ruff_output). CR \<notin> set l \<and> LF \<notin> set l"
    using re_split_pieces by blast
  from transformed_lines_no_break [OF tl this] tl out that show thesis by blast
qed

text \<open>
  C5. A line that the pattern does not match is dropped without an error: the list
  comprehension gives the same result, rendered lines or exception, as without the
  line, and when no line matches it gives no rendered line at all. When the
  transformation returns, its text is the rendered lines joined; they are, in order, the
  renderings of the matching lines of the input, so there are as many of them as there
  are matching lines, and splitting the text at its line breaks gives them back. A line
  the pattern matches is the text \<open>file_path:cell cell:line:column: error_code message\<close>
  of its groups (with at most one final line feed), where \<open>cell\<close>, \<open>line\<close> and \<open>column\<close>
  are non-empty runs of digits, \<open>error_code\<close> is one upper-case letter and three digits,
  and \<open>file_path\<close> is the shortest non-empty prefix after which the rest of the pattern
  matches.
\<close>

theorem non_matching_lines_are_dropped:
  "(re_match l = None \<longrightarrow>
      transformed_lines offsets (before @ l # after)
        = transformed_lines offsets (before @ after)) \<and>
   ((\<forall>l \<in> set ls. re_match l = None) \<longrightarrow> transformed_lines offsets ls = Inr []) \<and>
   (transform_ruff_to_jetbrains_compatible_output ruff_output cell_sources = Inr out \<longrightarrow>
      (\<exists>rendered.
         out = str_join [LF] rendered \<and>
         list_all2 (rendering_of (compute_jetbrains_cell_offsets cell_sources))
           (filter (\<lambda>l. re_match l \<noteq> None) (re_split_LINE_BREAK ruff_output)) rendered \<and>
         length rendered
           = length (filter (\<lambda>l. re_match l \<noteq> None) (re_split_LINE_BREAK ruff_output)) \<and>
         length rendered \<le> length (re_split_LINE_BREAK ruff_output) \<and>
         (rendered \<noteq> [] \<longrightarrow> re_split_LINE_BREAK out = rendered))) \<and>
   (re_match l = Some m \<longrightarrow>
      (l = ruff_concise_line m \<or> l = ruff_concise_line m @ [LF]) \<and>
      file_path m \<noteq> [] \<and> LF \<notin> set (file_path m) \<and>
      (\<forall>k. 0 < k \<and> k < length (file_path m) \<longrightarrow>
           match_after_file_path (take k l) (drop k l) = None) \<and>
      cell m \<noteq> [] \<and> (\<forall>c \<in> set (cell m). is_digit c) \<and>
      line m \<noteq> [] \<and> (\<forall>c \<in> set (line m). is_digit c) \<and>
      column m \<noteq> [] \<and> (\<forall>c \<in> set (column m). is_digit c) \<and>
      (\<exists>a b c d. error_code m = [a, b, c, d] \<and>
                  is_upper a \<and> is_digit b \<and> is_digit c \<and> is_digit d) \<and>
      LF \<notin> set (message m))"
proof -
  have skip: "re_match l = None \<longrightarrow>
      transformed_lines offsets (before @ l # after)
        = transformed_lines offsets (before @ after)"
    by (simp add: transformed_lines_skip)
  have none: "(\<forall>l \<in> set ls. re_match l = None) \<longrightarrow> transformed_lines offsets ls = Inr []"
    by (simp add: transformed_lines_no_match)
  have out: "\<exists>rendered.
         out = str_join [LF] rendered \<and>
         list_all2 (rendering_of (compute_jetbrains_cell_offsets cell_sources))
           (filter (\<lambda>l. re_match l \<noteq> None) (re_split_LINE_BREAK ruff_output)) rendered \<and>
         length rendered
           = length (filter (\<lambda>l. re_match l \<noteq> None) (re_split_LINE_BREAK ruff_output)) \<and>
         length rendered \<le> length (re_split_LINE_BREAK ruff_output) \<and>
         (rendered \<noteq> [] \<longrightarrow> re_split_LINE_BREAK out = rendered)"
    if "transform_ruff_to_jetbrains_compatible_output ruff_output cell_sources = Inr out"
  proof -
    from that obtain rendered where
      tl: "transformed_lines (compute_jetbrains_cell_offsets cell_sources)
             (re_split_LINE_BREAK ruff_output) = Inr rendered"
      and join: "out = str_join [LF] rendered"
      and clean: "\<forall>r \<in> set rendered. r \<noteq> [] \<and> CR \<notin> set r \<and> LF \<notin> set r"
      by (rule transform_output)
    note all2 = transformed_lines_rendering [OF tl]
    note len = transformed_lines_length [OF tl]
    from len have le: "length rendered \<le> length (re_split_LINE_BREAK ruff_output)"
      by simp
    have resplit: "rendered \<noteq> [] \<longrightarrow> re_split_LINE_BREAK out = rendered"
      using clean join by (simp add: re_split_str_join)
    from join all2 len le resplit show ?thesis by blast
  qed
  have shape: "(l = ruff_concise_line m \<or> l = ruff_concise_line m @ [LF]) \<and>
      file_path m \<noteq> [] \<and> LF \<notin> set (file_path m) \<and>
      (\<forall>k. 0 < k \<and> k < length (file_path m) \<longrightarrow>
           match_after_file_path (take k l) (drop k l) = None) \<and>
      cell m \<noteq> [] \<and> (\<forall>c \<in> set (cell m). is_digit c) \<and>
      line m \<noteq> [] \<and> (\<forall>c \<in> set (line m). is_digit c) \<and>
      column m \<noteq> [] \<and> (\<forall>c \<in> set (column m). is_digit c) \<and>
      (\<exists>a b c d. error_code m = [a, b, c, d] \<and>
                  is_upper a \<and> is_digit b \<and> is_digit c \<and> is_digit d) \<and>
      LF \<notin> set (message m)"
    if match: "re_match l = Some m"
  proof -
    from re_match_Some(1) [OF match] obtain rest where
      ma: "match_after_file_path (file_path m) rest = Some m" by blast
    note groups = match_after_file_path_Some [OF ma]
    have lazy: "\<forall>k. 0 < k \<and> k < length (file_path m) \<longrightarrow>
           match_after_file_path (take k l) (drop k l) = None"
      using re_match_lazy [OF match] by blast
    from re_match_text [OF match] re_match_Some(2,3) [OF match] lazy
      groups(3) groups(4) groups(5) groups(6) groups(7)
    show ?thesis by (intro conjI) blast+
  qed
  from skip none out shape show ?thesis by blast
qed

theorem non_matching_lines_are_dropped_witness:
  "transformed_lines [1] ([''x''] @ ''Found 1 error.'' # [''nb.ipynb:cell 1:3:5: E501 a''])
     = transformed_lines [1] ([''x''] @ [''nb.ipynb:cell 1:3:5: E501 a'']) \<and>
   transformed_lines [1] [''x'', ''Found 1 error.''] = Inr [] \<and>
   (\<exists>rendered.
      ''nb.ipynb:4:4: Ruff (E501): a'' = str_join [LF] rendered \<and>
      length rendered
        = length (filter (\<lambda>l. re_match l \<noteq> None)
            (re_split_LINE_BREAK
               (''x'' @ [CR, LF] @ ''nb.ipynb:cell 1:3:5: E501 a'' @ [CR] @
                ''Found 1 error.'' @ [LF])))) \<and>
   file_path \<lparr>file_path = ''nb.ipynb'', cell = ''1'', line = ''3'', column = ''5'',
              error_code = ''E501'', message = ''a''\<rparr> \<noteq> []"
proof -
  let ?l = "''nb.ipynb:cell 1:3:5: E501 a''"
  let ?m = "\<lparr>file_path = ''nb.ipynb'', cell = ''1'', line = ''3'', column = ''5'',
             error_code = ''E501'', message = ''a''\<rparr>"
  let ?raw = "''x'' @ [CR, LF] @ ?l @ [CR] @ ''Found 1 error.'' @ [LF]"
  have h1: "re_match ''Found 1 error.'' = None" by code_simp
  have h2: "\<forall>l \<in> set [''x'', ''Found 1 error.'']. re_match l = None" by code_simp
  have h3: "transform_ruff_to_jetbrains_compatible_output ?raw [''a'']
              = Inr ''nb.ipynb:4:4: Ruff (E501): a''"
    by code_simp
  have h4: "re_match ?l = Some ?m" by code_simp
  from h1 non_matching_lines_are_dropped
    [where l = "''Found 1 error.''" and offsets = "[1]" and before = "[''x'']" and after = "[?l]"]
  have 1: "transformed_lines [1] ([''x''] @ ''Found 1 error.'' # [?l])
     = transformed_lines [1] ([''x''] @ [?l])" by blast
  from h2 non_matching_lines_are_dropped
    [where ls = "[''x'', ''Found 1 error.'']" and offsets = "[1]"]
  have 2: "transformed_lines [1] [''x'', ''Found 1 error.''] = Inr []" by blast
  from h3 non_matching_lines_are_dropped
    [where ruff_output = ?raw and cell_sources = "[''a'']"
       and out = "''nb.ipynb:4:4: Ruff (E501): a''"]
  have 3: "\<exists>rendered.
      ''nb.ipynb:4:4: Ruff (E501): a'' = str_join [LF] rendered \<and>
      length rendered
        = length (filter (\<lambda>l. re_match l \<noteq> None) (re_split_LINE_BREAK ?raw))"
    by blast
  from h4 non_matching_lines_are_dropped [where l = ?l and m = ?m]
  have 4: "file_path ?m \<noteq> []" by blast
  from 1 2 3 4 show ?thesis by (intro conjI)
qed

text \<open>
  C7. The output of the linter is split at every \<open>\r\n\<close>, \<open>\r\<close> and \<open>\n\<close>: no piece has a
  carriage return or a line feed left, there is one piece more than there are line
  breaks, and the pieces together are the output without its line break characters.
  When the transformation returns, its text is the rendered lines joined by one line
  feed each, whatever line breaks the input had: it has no carriage return, one line
  feed less than rendered lines, and none at its end. The empty output of the linter
  gives the empty text.
\<close>

theorem split_at_line_breaks_join_with_line_feed:
  "transform_ruff_to_jetbrains_compatible_output [] cell_sources = Inr [] \<and>
   (\<forall>p \<in> set (re_split_LINE_BREAK ruff_output). CR \<notin> set p \<and> LF \<notin> set p) \<and>
   length (re_split_LINE_BREAK ruff_output)
     = Suc (length (re_findall_LINE_BREAK ruff_output)) \<and>
   concat (re_split_LINE_BREAK ruff_output)
     = filter (\<lambda>c. c \<noteq> CR \<and> c \<noteq> LF) ruff_output \<and>
   re_split_LINE_BREAK (''a'' @ [CR, LF] @ ''b'' @ [CR] @ ''c'' @ [LF] @ ''d'')
     = [''a'', ''b'', ''c'', ''d''] \<and>
   (transform_ruff_to_jetbrains_compatible_output ruff_output cell_sources = Inr out \<longrightarrow>
      (\<exists>rendered.
         transformed_lines (compute_jetbrains_cell_offsets cell_sources)
           (re_split_LINE_BREAK ruff_output) = Inr rendered \<and>
         out = str_join [LF] rendered \<and>
         CR \<notin> set out \<and>
         length (filter (\<lambda>c. c = LF) out) = length rendered - 1 \<and>
         (out \<noteq> [] \<longrightarrow> last out \<noteq> LF)))"
proof -
  have empty: "transform_ruff_to_jetbrains_compatible_output [] cell_sources = Inr []"
    by (simp add: transform_ruff_to_jetbrains_compatible_output_def)
  have pieces: "\<forall>p \<in> set (re_split_LINE_BREAK ruff_output). CR \<notin> set p \<and> LF \<notin> set p"
    using re_split_pieces by blast
  note count = length_re_split [of ruff_output]
  note chars = concat_re_split [of ruff_output]
  have mixed: "re_split_LINE_BREAK (''a'' @ [CR, LF] @ ''b'' @ [CR] @ ''c'' @ [LF] @ ''d'')
     = [''a'', ''b'', ''c'', ''d'']"
    by simp
  have joined: "\<exists>rendered.
         transformed_lines (compute_jetbrains_cell_offsets cell_sources)
           (re_split_LINE_BREAK ruff_output) = Inr rendered \<and>
         out = str_join [LF] rendered \<and>
         CR \<notin> set out \<and>
         length (filter (\<lambda>c. c = LF) out) = length rendered - 1 \<and>
         (out \<noteq> [] \<longrightarrow> last out \<noteq> LF)"
    if "transform_ruff_to_jetbrains_compatible_output ruff_output cell_sources = Inr out"
  proof -
    from that obtain rendered where
      tl: "transformed_lines (compute_jetbrains_cell_offsets cell_sources)
             (re_split_LINE_BREAK ruff_output) = Inr rendered"
      and join: "out = str_join [LF] rendered"
      and clean: "\<forall>r \<in> set rendered. r \<noteq> [] \<and> CR \<notin> set r \<and> LF \<notin> set r"
      by (rule transform_output)
    from clean join have no_cr: "CR \<notin> set out"
      by (simp add: str_join_no_CR)
    from clean join have lfs: "length (filter (\<lambda>c. c = LF) out) = length rendered - 1"
      by (simp add: str_join_count_LF)
    have no_end: "last out \<noteq> LF" if "out \<noteq> []"
    proof -
      from that join have ne: "rendered \<noteq> []" by auto
      with clean have l: "last rendered \<noteq> [] \<and> LF \<notin> set (last rendered)"
        using last_in_set [OF ne] by blast
      with ne join have "last out = last (last rendered)"
        by (simp add: last_str_join)
      moreover from l have "last (last rendered) \<in> set (last rendered)"
        by simp
      ultimately show ?thesis using l by metis
    qed
    from tl join no_cr lfs no_end show ?thesis by blast
  qed
  from empty pieces count chars mixed joined show ?thesis by blast
qed

theorem split_at_line_breaks_join_with_line_feed_witness:
  "CR \<notin> set ''f:cell 1:2:1: E501 b'' \<and> LF \<notin> set ''f:cell 1:2:1: E501 b'' \<and>
   (\<exists>rendered.
      ''f:2:0: Ruff (E501): a'' @ [LF] @ ''f:3:0: Ruff (E501): b'' @ [LF] @
      ''f:4:0: Ruff (E501): c''
        = str_join [LF] rendered \<and>
      length (filter (\<lambda>c. c = LF)
         (''f:2:0: Ruff (E501): a'' @ [LF] @ ''f:3:0: Ruff (E501): b'' @ [LF] @
          ''f:4:0: Ruff (E501): c'')) = length rendered - 1)"
proof -
  let ?raw = "''f:cell 1:1:1: E501 a'' @ [CR, LF] @ ''f:cell 1:2:1: E501 b'' @ [CR] @
              ''f:cell 1:3:1: E501 c'' @ [LF]"
  let ?out = "''f:2:0: Ruff (E501): a'' @ [LF] @ ''f:3:0: Ruff (E501): b'' @ [LF] @
              ''f:4:0: Ruff (E501): c''"
  have h1: "''f:cell 1:2:1: E501 b'' \<in> set (re_split_LINE_BREAK ?raw)" by code_simp
  have h2: "transform_ruff_to_jetbrains_compatible_output ?raw [''x''] = Inr ?out"
    by code_simp
  note facts = split_at_line_breaks_join_with_line_feed
    [where ruff_output = ?raw and cell_sources = "[''x'']" and out = ?out]
  from facts have
    "\<forall>p \<in> set (re_split_LINE_BREAK ?raw). CR \<notin> set p \<and> LF \<notin> set p" by blast
  with h1 have 1: "CR \<notin> set ''f:cell 1:2:1: E501 b'' \<and> LF \<notin> set ''f:cell 1:2:1: E501 b''"
    by blast
  from facts h2 have 2: "\<exists>rendered. ?out = str_join [LF] rendered \<and>
      length (filter (\<lambda>c. c = LF) ?out) = length rendered - 1"
    by blast
  from 1 2 show ?thesis by blast
qed

end
